theory Spec2Isabelle
  imports Main "HOL-Library.Sublist" "HOL-Library.Multiset"
begin

section \<open>Python strings\<close>

text \<open>
  The redaction engine of \<^verbatim>\<open>examples/process_docx.py\<close> works on Python strings. A
  Python string is a sequence of Unicode code points: it is modelled as a list of
  natural numbers, and an offset into it counts code points. \<open>lit\<close> is the Python
  string of a literal of the source.
\<close>

type_synonym pystr = "nat list"

definition lit :: "string \<Rightarrow> pystr" where
  "lit s = map of_char s"

text \<open>
  The casing of a code point is that of the Unicode character database of the Python
  runtime, which is not part of the repository: it is a parameter of the model.
  \<open>uc_upper\<close> is the full upper-case mapping of a code point (one to three code
  points), \<open>uc_isupper\<close>, \<open>uc_islower\<close> and \<open>uc_istitle\<close> are the three case properties.
\<close>

record unicode_db =
  uc_upper :: "nat \<Rightarrow> nat list"
  uc_isupper :: "nat \<Rightarrow> bool"
  uc_islower :: "nat \<Rightarrow> bool"
  uc_istitle :: "nat \<Rightarrow> bool"

text \<open>
  \<^verbatim>\<open>s.isupper()\<close>: the empty string is not upper-case; a string of one code point is
  upper-case when that code point is; a longer string is upper-case when none of its
  code points is lower-case or title-case and at least one is upper-case.
\<close>

definition py_isupper :: "unicode_db \<Rightarrow> pystr \<Rightarrow> bool" where
  "py_isupper ucd s =
     (case s of
        [] \<Rightarrow> False
      | [c] \<Rightarrow> uc_isupper ucd c
      | _ \<Rightarrow>
          list_all (\<lambda>c. \<not> (uc_islower ucd c \<or> uc_istitle ucd c)) s \<and>
          list_ex (uc_isupper ucd) s)"

text \<open>
  \<^verbatim>\<open>s.upper()\<close>: the full upper-case mappings of the code points of \<open>s\<close>, in their order.
  The result can be longer than \<open>s\<close>.
\<close>

definition py_upper :: "unicode_db \<Rightarrow> pystr \<Rightarrow> pystr" where
  "py_upper ucd s = concat (map (uc_upper ucd) s)"

text \<open>\<^verbatim>\<open>s.replace(a, b)\<close> for one-character strings \<open>a\<close> and \<open>b\<close>: every occurrence.\<close>

definition py_replace_char :: "char \<Rightarrow> char \<Rightarrow> pystr \<Rightarrow> pystr" where
  "py_replace_char a b s = map (\<lambda>c. if c = of_char a then of_char b else c) s"

text \<open>
  \<^verbatim>\<open>s.replace(old, new, 1)\<close>: the left-most occurrence of \<open>old\<close> is replaced, and \<open>s\<close> is
  returned as it is when \<open>old\<close> does not occur. The empty \<open>old\<close> occurs at offset 0, also
  in the empty string.
\<close>

fun py_replace1 :: "'a list \<Rightarrow> 'a list \<Rightarrow> 'a list \<Rightarrow> 'a list" where
  "py_replace1 [] old new = (if old = [] then new else [])"
| "py_replace1 (c # cs) old new =
     (if prefix old (c # cs) then new @ drop (length old) (c # cs)
      else c # py_replace1 cs old new)"

text \<open>
  Slices \<^verbatim>\<open>s[:i]\<close> and \<^verbatim>\<open>s[i:]\<close>. A negative bound counts from the end of the string, and
  a bound outside the string is clamped to it; a slice never raises.
\<close>

definition slice_bound :: "int \<Rightarrow> nat \<Rightarrow> nat" where
  "slice_bound i n = (if i < 0 then nat (max 0 (int n + i)) else min (nat i) n)"

definition py_slice_to :: "'a list \<Rightarrow> int \<Rightarrow> 'a list" where
  "py_slice_to s i = take (slice_bound i (length s)) s"

definition py_slice_from :: "'a list \<Rightarrow> int \<Rightarrow> 'a list" where
  "py_slice_from s i = drop (slice_bound i (length s)) s"

text \<open>
  \<^verbatim>\<open>sorted(xs, key=key, reverse=True)\<close>: the list is reversed, sorted stably by ascending
  key and reversed again, so the keys descend and elements with equal keys keep the
  order they had in \<open>xs\<close>.
\<close>

definition py_sorted_reverse :: "('a \<Rightarrow> int) \<Rightarrow> 'a list \<Rightarrow> 'a list" where
  "py_sorted_reverse key xs = rev (sort_key key (rev xs))"

datatype py_error = KeyError string

section \<open>The category taxonomy\<close>

definition ALL_PII_TYPES :: "pystr list" where
  "ALL_PII_TYPES = map lit [
    ''number'', ''location address street'', ''pin'', ''name medical professional'', ''accounts'',
    ''policy number'', ''marital status'', ''passport number'', ''ssn'', ''discharge date'', ''occupation'',
    ''date'', ''origin'', ''test result'', ''name'', ''location zip'', ''gender'', ''organization medical facility'',
    ''esidno'', ''zip'', ''date interval'', ''dob'', ''rate'', ''organization'', ''location state'',
    ''confirmation number'', ''name given'', ''time'', ''cvv'', ''month'', ''credit card'', ''planduration'',
    ''filename'', ''age'', ''numerical pii'', ''money'', ''physical attribute'', ''address'',
    ''credit card expiration'', ''account number'', ''location'', ''language'',
    ''location city'', ''duration'', ''password'', ''medical process'', ''county'', ''phone number'',
    ''condition'', ''email address'', ''location address'', ''name family'', ''location country'']"

definition PII_GROUP :: "pystr list" where
  "PII_GROUP = map lit [
    ''name'', ''name given'', ''name family'', ''phone number'', ''email address'',
    ''ssn'', ''dob'', ''age'', ''gender'', ''marital status'', ''origin'',
    ''location address'', ''location address street'', ''location city'',
    ''location state'', ''location country'', ''location zip'', ''location'',
    ''address'', ''zip'', ''county'', ''passport number'', ''occupation'',
    ''language'', ''physical attribute'', ''password'', ''filename'',
    ''date'', ''time'', ''duration'', ''date interval'', ''month'', ''number'',
    ''numerical pii'', ''esidno'', ''confirmation number'']"

definition PHI_GROUP :: "pystr list" where
  "PHI_GROUP = map lit [
    ''name'', ''name medical professional'', ''dob'', ''age'', ''gender'',
    ''phone number'', ''email address'', ''ssn'', ''location address'',
    ''organization medical facility'', ''condition'', ''medical process'',
    ''test result'', ''discharge date'', ''policy number'', ''account number'',
    ''location city'', ''location state'', ''location zip'']"

definition PCI_GROUP :: "pystr list" where
  "PCI_GROUP = map lit [
    ''credit card'', ''credit card expiration'', ''cvv'', ''account number'',
    ''accounts'', ''pin'', ''money'', ''rate'', ''planduration'']"

section \<open>The replacement synthesizer\<close>

text \<open>
  \<^verbatim>\<open>fake\<close> is the Faker object, or \<^verbatim>\<open>None\<close> when the library cannot be imported. The
  library is not part of the repository: it is a parameter of the model. A \<open>faker\<close> gives,
  for the key of a registered generator, the string which that generator builds from
  its calls into the library, and the library's random state after these calls. The
  library is taken to return normally.
\<close>

type_synonym 's faker = "pystr \<Rightarrow> 's \<Rightarrow> pystr \<times> 's"

text \<open>
  \<^verbatim>\<open>PII_TO_FAKER\<close>: every entry is \<^verbatim>\<open>key: lambda: <Faker expression> if fake else <constant>\<close>.
  The table keeps each key with the constant of its \<^verbatim>\<open>else\<close> branch; \<open>call_generator\<close>
  is the call of such a lambda.
\<close>

definition PII_TO_FAKER :: "(pystr \<times> pystr) list" where
  "PII_TO_FAKER = map (\<lambda>(key, fallback). (lit key, lit fallback)) [
    (''account number'', ''ACC1234567890''),
    (''accounts'', ''ACC1234567890''),
    (''address'', ''123 Main St, City, State 12345''),
    (''age'', ''35''),
    (''condition'', ''Medical Condition''),
    (''confirmation number'', ''CONF12345''),
    (''county'', ''Sample County''),
    (''credit card'', ''4111-1111-1111-1111''),
    (''credit card expiration'', ''12/25''),
    (''cvv'', ''123''),
    (''date'', ''2024-01-01''),
    (''date interval'', ''2024-01-01 to 2024-12-31''),
    (''discharge date'', ''2024-03-15''),
    (''dob'', ''01/01/1990''),
    (''duration'', ''30 days''),
    (''email address'', ''user@example.com''),
    (''esidno'', ''ESI123456789''),
    (''filename'', ''document.pdf''),
    (''gender'', ''Person''),
    (''language'', ''English''),
    (''location'', ''City Name''),
    (''location address'', ''123 Main St, City, State 12345''),
    (''location address street'', ''123 Main Street''),
    (''location city'', ''Anytown''),
    (''location country'', ''United States''),
    (''location state'', ''California''),
    (''location zip'', ''12345''),
    (''marital status'', ''Status''),
    (''medical process'', ''Medical Procedure''),
    (''money'', ''$50,000''),
    (''month'', ''January''),
    (''name'', ''John Doe''),
    (''name family'', ''Doe''),
    (''name given'', ''John''),
    (''name medical professional'', ''Dr. Smith''),
    (''number'', ''12345''),
    (''numerical pii'', ''NUM123456''),
    (''occupation'', ''Professional''),
    (''organization'', ''Example Corp''),
    (''organization medical facility'', ''General Hospital''),
    (''origin'', ''Country''),
    (''passport number'', ''P12345678''),
    (''password'', ''SecurePass123''),
    (''phone number'', ''(555) 123-4567''),
    (''physical attribute'', ''Description''),
    (''pin'', ''1234''),
    (''planduration'', ''12 months''),
    (''policy number'', ''POL-12345678''),
    (''rate'', ''5%''),
    (''ssn'', ''123-45-6789''),
    (''test result'', ''Result''),
    (''time'', ''12:00:00''),
    (''zip'', ''12345'')]"

definition call_generator :: "'s faker option \<Rightarrow> pystr \<Rightarrow> pystr \<Rightarrow> 's \<Rightarrow> pystr \<times> 's" where
  "call_generator fake key fallback s =
     (case fake of Some f \<Rightarrow> f key s | None \<Rightarrow> (fallback, s))"

definition get_replacement ::
  "unicode_db \<Rightarrow> 's faker option \<Rightarrow> pystr \<Rightarrow> pystr \<Rightarrow> 's \<Rightarrow> pystr \<times> 's" where
  "get_replacement ucd fake pii_type original_text s =
     (case map_of PII_TO_FAKER pii_type of
        Some fallback \<Rightarrow> call_generator fake pii_type fallback s
      | None \<Rightarrow>
          (lit ''['' @ py_replace_char (CHR '' '') (CHR ''_'') (py_upper ucd pii_type) @ lit '']'', s))"

section \<open>The span redactor\<close>

text \<open>
  An entity is a dictionary of the detector. The redactor reads the keys \<^verbatim>\<open>label\<close>,
  \<^verbatim>\<open>text\<close>, \<^verbatim>\<open>start\<close> and \<^verbatim>\<open>end\<close>; each may be absent (\<open>None\<close>). A label and a matched text
  are strings and an offset is an integer.
\<close>

record entity =
  ent_label :: "pystr option"
  ent_text :: "pystr option"
  ent_start :: "int option"
  ent_end :: "int option"

text \<open>The sort key \<^verbatim>\<open>x.get('start', 0)\<close>.\<close>

definition start_key :: "entity \<Rightarrow> int" where
  "start_key x = (case ent_start x of Some st \<Rightarrow> st | None \<Rightarrow> 0)"

text \<open>The block under \<^verbatim>\<open># Preserve capitalization\<close>.\<close>

definition preserve_capitalization :: "unicode_db \<Rightarrow> pystr \<Rightarrow> pystr \<Rightarrow> pystr" where
  "preserve_capitalization ucd etext replacement =
     (if py_isupper ucd etext then py_upper ucd replacement
      else if etext \<noteq> [] \<and> py_isupper ucd [hd etext] then
        (if length replacement > 1 then py_upper ucd [hd replacement] @ tl replacement
         else py_upper ucd replacement)
      else replacement)"

text \<open>The splice: by offsets when the entity has both, else by the first occurrence.\<close>

definition splice_entity :: "entity \<Rightarrow> pystr \<Rightarrow> pystr \<Rightarrow> pystr \<Rightarrow> pystr" where
  "splice_entity entity modified_text etext replacement =
     (case ent_start entity of
        Some st \<Rightarrow>
          (case ent_end entity of
             Some en \<Rightarrow> py_slice_to modified_text st @ replacement @ py_slice_from modified_text en
           | None \<Rightarrow> py_replace1 modified_text etext replacement)
      | None \<Rightarrow> py_replace1 modified_text etext replacement)"

text \<open>
  The body of the loop for one entity. \<^verbatim>\<open>entity['label']\<close> and \<^verbatim>\<open>entity['text']\<close> raise
  \<^verbatim>\<open>KeyError\<close> on a missing key, the label first.
\<close>

definition replace_entity ::
  "unicode_db \<Rightarrow> 's faker option \<Rightarrow> entity \<Rightarrow> pystr \<Rightarrow> 's \<Rightarrow> py_error + (pystr \<times> 's)" where
  "replace_entity ucd fake entity modified_text s =
     (case ent_label entity of
        None \<Rightarrow> Inl (KeyError ''label'')
      | Some label \<Rightarrow>
          (case ent_text entity of
             None \<Rightarrow> Inl (KeyError ''text'')
           | Some etext \<Rightarrow>
               (case get_replacement ucd fake label etext s of
                  (replacement, s') \<Rightarrow>
                    Inr (splice_entity entity modified_text etext
                           (preserve_capitalization ucd etext replacement), s'))))"

fun replace_loop ::
  "unicode_db \<Rightarrow> 's faker option \<Rightarrow> entity list \<Rightarrow> pystr \<Rightarrow> 's \<Rightarrow> py_error + (pystr \<times> 's)" where
  "replace_loop ucd fake [] modified_text s = Inr (modified_text, s)"
| "replace_loop ucd fake (entity # sorted_entities) modified_text s =
     (case replace_entity ucd fake entity modified_text s of
        Inl err \<Rightarrow> Inl err
      | Inr (modified_text', s') \<Rightarrow> replace_loop ucd fake sorted_entities modified_text' s')"

definition replace_pii_in_text ::
  "unicode_db \<Rightarrow> 's faker option \<Rightarrow> pystr \<Rightarrow> entity list \<Rightarrow> 's \<Rightarrow> py_error + (pystr \<times> 's)" where
  "replace_pii_in_text ucd fake doc entities s =
     (if entities = [] then Inr (doc, s)
      else replace_loop ucd fake (py_sorted_reverse start_key entities) doc s)"

section \<open>The category selector\<close>

text \<open>
  The parsed command line, as far as \<^verbatim>\<open>get_pii_types\<close> reads it: \<^verbatim>\<open>--pii-types\<close> is
  \<^verbatim>\<open>None\<close> or a list of tokens, the three group switches are flags.
\<close>

record args =
  pii_types :: "pystr list option"
  pii :: bool
  phi :: bool
  pci :: bool

definition normalize_pii_types :: "pystr list \<Rightarrow> pystr list" where
  "normalize_pii_types ts = map (py_replace_char (CHR ''_'') (CHR '' '')) ts"

definition get_pii_types :: "args \<Rightarrow> pystr list" where
  "get_pii_types a =
     (case pii_types a of
        Some (t # ts) \<Rightarrow> normalize_pii_types (t # ts)
      | _ \<Rightarrow>
          if pii a then PII_GROUP
          else if phi a then PHI_GROUP
          else if pci a then PCI_GROUP
          else ALL_PII_TYPES)"

section \<open>Notions of the specification\<close>

text \<open>
  Case-shape preservation in the specification's words: an empty matched substring skips
  the adjustment; an entirely upper-case one upper-cases the whole replacement;
  otherwise a matched substring whose first character is upper-case upper-cases the
  first character of the replacement only, a single-character replacement being
  upper-cased as a whole; otherwise the replacement is left as it is.
\<close>

definition case_shape_spec :: "unicode_db \<Rightarrow> pystr \<Rightarrow> pystr \<Rightarrow> pystr" where
  "case_shape_spec ucd matched replacement =
     (if matched = [] then replacement
      else if py_isupper ucd matched then py_upper ucd replacement
      else if uc_isupper ucd (hd matched) then
        (case replacement of
           [] \<Rightarrow> []
         | c # cs \<Rightarrow> if cs = [] then py_upper ucd [c] else uc_upper ucd c @ cs)
      else replacement)"

text \<open>
  A well-formed entity span of a text: it has a label and a matched substring, every
  offset it has lies in the text, and when it has both offsets they are ordered and
  delimit the matched substring.
\<close>

definition well_formed :: "pystr \<Rightarrow> entity \<Rightarrow> bool" where
  "well_formed doc e =
     (ent_label e \<noteq> None \<and> ent_text e \<noteq> None \<and>
      (case ent_start e of
         None \<Rightarrow> (case ent_end e of None \<Rightarrow> True | Some en \<Rightarrow> 0 \<le> en \<and> en \<le> int (length doc))
       | Some st \<Rightarrow>
           (case ent_end e of
              None \<Rightarrow> 0 \<le> st \<and> st \<le> int (length doc)
            | Some en \<Rightarrow>
                0 \<le> st \<and> st \<le> en \<and> en \<le> int (length doc) \<and>
                ent_text e = Some (take (nat en - nat st) (drop (nat st) doc)))))"

text \<open>An entity carries valid offsets into a text: \<open>0 \<le> start \<le> end \<le> len(text)\<close>.\<close>

definition valid_offsets :: "pystr \<Rightarrow> entity \<Rightarrow> bool" where
  "valid_offsets doc e =
     (case ent_start e of
        None \<Rightarrow> False
      | Some st \<Rightarrow>
          (case ent_end e of
             None \<Rightarrow> False
           | Some en \<Rightarrow> 0 \<le> st \<and> st \<le> en \<and> en \<le> int (length doc)))"

text \<open>Offset \<open>i\<close> lies in the range \<open>[start, end)\<close> of an entity; in that of some entity.\<close>

definition in_span :: "entity \<Rightarrow> nat \<Rightarrow> bool" where
  "in_span e i =
     (case ent_start e of
        None \<Rightarrow> False
      | Some st \<Rightarrow> (case ent_end e of None \<Rightarrow> False | Some en \<Rightarrow> st \<le> int i \<and> int i < en))"

definition covered :: "entity list \<Rightarrow> nat \<Rightarrow> bool" where
  "covered es i = list_ex (\<lambda>e. in_span e i) es"

text \<open>
  The ranges of two entities overlap when they share an offset; the entities of a list
  are pairwise non-overlapping, position by position (an entity listed twice overlaps
  itself unless its range is empty).
\<close>

definition overlap :: "entity \<Rightarrow> entity \<Rightarrow> bool" where
  "overlap e1 e2 =
     (case (ent_start e1, ent_end e1, ent_start e2, ent_end e2) of
        (Some a1, Some b1, Some a2, Some b2) \<Rightarrow> max a1 a2 < min b1 b2
      | _ \<Rightarrow> False)"

fun non_overlapping :: "entity list \<Rightarrow> bool" where
  "non_overlapping [] = True"
| "non_overlapping (e # es) = (list_all (\<lambda>e'. \<not> overlap e e') es \<and> non_overlapping es)"

text \<open>
  The characters of a text at the offsets from \<open>j\<close> on that a set of offsets \<open>cov\<close>
  leaves out, in their order; the characters of a text outside the ranges of a list
  of entities.
\<close>

definition keep :: "(nat \<Rightarrow> bool) \<Rightarrow> 'a list \<Rightarrow> nat \<Rightarrow> 'a list" where
  "keep cov doc j = map (\<lambda>i. doc ! i) (filter (\<lambda>i. \<not> cov i) [j..<length doc])"

definition untouched :: "pystr \<Rightarrow> entity list \<Rightarrow> pystr" where
  "untouched doc es = keep (covered es) doc 0"

text \<open>
  For the proof of the loop: the end offset of an entity, and the invariant. The text
  in the making is \<open>take m doc @ X\<close>, where \<open>m\<close> is the least start offset rewritten so
  far and \<open>b\<close> the least start offset of a non-empty span rewritten so far. Between
  \<open>m\<close> and \<open>b\<close> the text has only grown, so for each \<open>j\<close> there the rest \<open>X\<close> without
  its first \<open>j - m\<close> characters still holds the uncovered characters from \<open>j\<close> on.
\<close>

definition end_key :: "entity \<Rightarrow> int" where
  "end_key x = (case ent_end x of Some en \<Rightarrow> en | None \<Rightarrow> 0)"

definition kept_from :: "(nat \<Rightarrow> bool) \<Rightarrow> 'a list \<Rightarrow> nat \<Rightarrow> nat \<Rightarrow> 'a list \<Rightarrow> bool" where
  "kept_from cov doc m b X =
     (\<forall>j. m \<le> j \<and> j \<le> b \<longrightarrow> subseq (keep cov doc j) (drop (j - m) X))"

text \<open>
  The part of the Unicode character database for the ASCII characters, \<open>U+00C9\<close> (E
  acute), \<open>U+00E9\<close> (e acute) and \<open>U+00DF\<close> (sharp s, whose upper case is \<open>SS\<close>). It is
  used to run the model on texts over these characters only.
\<close>

definition unicode_fragment :: unicode_db where
  "unicode_fragment = \<lparr>
     uc_upper = (\<lambda>c. if 97 \<le> c \<and> c \<le> 122 then [c - 32]
                     else if c = 233 then [201]
                     else if c = 223 then [83, 83]
                     else [c]),
     uc_isupper = (\<lambda>c. (65 \<le> c \<and> c \<le> 90) \<or> c = 201),
     uc_islower = (\<lambda>c. (97 \<le> c \<and> c \<le> 122) \<or> c = 223 \<or> c = 233),
     uc_istitle = (\<lambda>c. False)\<rparr>"

section \<open>Literals and the evaluation of concrete runs\<close>

lemma lit_eq_iff [simp]: "lit s = lit t \<longleftrightarrow> s = t"
  unfolding lit_def by (rule inj_map_eq_map) (simp add: inj_on_def)

lemma lit_mem_iff [simp]: "lit s \<in> set (map lit xs) \<longleftrightarrow> s \<in> set xs"
  by (induction xs) auto

lemma lit_append: "lit (s @ t) = lit s @ lit t"
  by (simp add: lit_def)

lemma map_of_lit:
  "map_of (map (\<lambda>(key, fallback). (lit key, lit fallback)) table) (lit k)
     = map_option lit (map_of table k)"
  by (induction table) auto

lemma py_replace_char_lit:
  "py_replace_char a b (lit s) = lit (map (\<lambda>c. if c = a then b else c) s)"
  by (simp add: py_replace_char_def lit_def)

lemmas eval_defs =
  splice_entity_def case_shape_spec_def preserve_capitalization_def
  py_isupper_def py_upper_def unicode_fragment_def lit_def
  py_slice_to_def py_slice_from_def slice_bound_def py_replace_char_def

lemmas lookup_defs =
  get_replacement_def call_generator_def PII_TO_FAKER_def map_of_lit

lemmas run_defs =
  replace_pii_in_text_def py_sorted_reverse_def start_key_def replace_entity_def

text \<open>The replacements of the categories that the examples use.\<close>

lemma get_replacement_fallbacks:
  "get_replacement ucd None (lit ''name'') t s = (lit ''John Doe'', s)"
  "get_replacement ucd None (lit ''name given'') t s = (lit ''John'', s)"
  "get_replacement ucd None (lit ''email address'') t s = (lit ''user@example.com'', s)"
  "get_replacement ucd None (lit ''pin'') t s = (lit ''1234'', s)"
  "get_replacement ucd None (lit ''cvv'') t s = (lit ''123'', s)"
  "get_replacement ucd None (lit ''age'') t s = (lit ''35'', s)"
  by (simp_all add: lookup_defs)

lemma get_replacement_generated:
  "get_replacement ucd (Some f) (lit ''age'') t s = f (lit ''age'') s"
  "get_replacement ucd (Some f) (lit ''name given'') t s = f (lit ''name given'') s"
  by (simp_all add: lookup_defs)

section \<open>The empty list of spans\<close>

text \<open>
  C7. For every text, \<^verbatim>\<open>replace_pii_in_text\<close> applied to the empty list of spans returns
  the text unchanged; nothing is drawn from the Faker library.
\<close>

theorem replace_pii_in_text_empty:
  "replace_pii_in_text ucd fake doc [] s = Inr (doc, s)"
  by (simp add: replace_pii_in_text_def)

section \<open>The taxonomy and the synthesizer\<close>

text \<open>
  C9. Every category of the groups \<^verbatim>\<open>PII_GROUP\<close>, \<^verbatim>\<open>PHI_GROUP\<close> and \<^verbatim>\<open>PCI_GROUP\<close> is a member
  of the master registry \<^verbatim>\<open>ALL_PII_TYPES\<close>.
\<close>

theorem groups_within_all_pii_types:
  "set PII_GROUP \<subseteq> set ALL_PII_TYPES
   \<and> set PHI_GROUP \<subseteq> set ALL_PII_TYPES
   \<and> set PCI_GROUP \<subseteq> set ALL_PII_TYPES"
proof -
  have "set (map lit xs) \<subseteq> set (map lit ys)" if "set xs \<subseteq> set ys" for xs ys
    using that by auto
  then show ?thesis
    unfolding PII_GROUP_def PHI_GROUP_def PCI_GROUP_def ALL_PII_TYPES_def by simp
qed

text \<open>
  C10. Without the Faker library (\<^verbatim>\<open>fake\<close> is \<^verbatim>\<open>None\<close>), \<^verbatim>\<open>get_replacement\<close> is a function of
  the category alone: a registered category gets the fixed constant of its generator,
  any other category its placeholder; the result is the same for every original text
  and every two calls, and the state is left as it was.
\<close>

theorem get_replacement_without_faker:
  "get_replacement ucd None pii_type original_text s =
     ((case map_of PII_TO_FAKER pii_type of
         Some fallback \<Rightarrow> fallback
       | None \<Rightarrow>
           lit ''['' @ py_replace_char (CHR '' '') (CHR ''_'') (py_upper ucd pii_type) @ lit '']''), s)
   \<and> fst (get_replacement ucd None pii_type original_text s) =
       fst (get_replacement ucd None pii_type original_text' s')"
  by (simp add: get_replacement_def call_generator_def split: option.splits)

text \<open>
  C6. For every category with no registered generator, \<^verbatim>\<open>get_replacement\<close> returns the
  placeholder: the category in upper case (\<^verbatim>\<open>str.upper\<close>, for any casing of the
  Unicode database), each space replaced by an underscore, in square brackets. It is
  never empty, and it does not depend on the Faker library. For
  \<^verbatim>\<open>unregistered category xyz\<close> it is \<^verbatim>\<open>[UNREGISTERED_CATEGORY_XYZ]\<close>; the accent of
  \<^verbatim>\<open>caf\<close> + e acute is upper-cased too, and a sharp s becomes \<^verbatim>\<open>SS\<close>.
\<close>

theorem get_replacement_placeholder:
  assumes "map_of PII_TO_FAKER pii_type = None"
  shows "get_replacement ucd fake pii_type original_text s =
           (lit ''['' @ py_replace_char (CHR '' '') (CHR ''_'') (py_upper ucd pii_type) @ lit '']'', s)
         \<and> fst (get_replacement ucd fake pii_type original_text s) \<noteq> []"
  using assms by (simp add: get_replacement_def lit_def)

theorem get_replacement_placeholder_witness:
  "map_of PII_TO_FAKER (lit ''unregistered category xyz'') = None
   \<and> get_replacement unicode_fragment None (lit ''unregistered category xyz'') (lit ''Jane'') ()
       = (lit ''[UNREGISTERED_CATEGORY_XYZ]'', ())
   \<and> get_replacement unicode_fragment None (lit (''caf'' @ [CHR 0xE9] @ '' bar'')) (lit ''Jane'') ()
       = (lit (''[CAF'' @ [CHR 0xC9] @ ''_BAR]''), ())
   \<and> get_replacement unicode_fragment None (lit (''stra'' @ [CHR 0xDF] @ ''e'')) (lit ''Jane'') ()
       = (lit ''[STRASSE]'', ())"
proof -
  have n1: "map_of PII_TO_FAKER (lit ''unregistered category xyz'') = None"
    and n2: "map_of PII_TO_FAKER (lit (''caf'' @ [CHR 0xE9] @ '' bar'')) = None"
    and n3: "map_of PII_TO_FAKER (lit (''stra'' @ [CHR 0xDF] @ ''e'')) = None"
    by (simp_all add: PII_TO_FAKER_def map_of_lit)
  from n1
    get_replacement_placeholder [OF n1, of unicode_fragment None "lit ''Jane''" "()"]
    get_replacement_placeholder [OF n2, of unicode_fragment None "lit ''Jane''" "()"]
    get_replacement_placeholder [OF n3, of unicode_fragment None "lit ''Jane''" "()"]
  show ?thesis
    by (simp add: py_upper_def py_replace_char_def unicode_fragment_def lit_def)
qed

section \<open>The category selector\<close>

text \<open>
  C5, as the specification states it, does not hold: \<^verbatim>\<open>get_pii_types\<close> has no error to
  give. For the explicit list \<^verbatim>\<open>name favourite_colour\<close> it returns both tokens, the second
  one normalized, although \<^verbatim>\<open>favourite colour\<close> is no category of the taxonomy.
\<close>

theorem get_pii_types_unknown_token_counterexample:
  "get_pii_types
     \<lparr>pii_types = Some [lit ''name'', lit ''favourite_colour''],
      pii = False, phi = False, pci = False\<rparr>
     = [lit ''name'', lit ''favourite colour'']
   \<and> lit ''favourite colour'' \<notin> set ALL_PII_TYPES"
  by (simp add: get_pii_types_def normalize_pii_types_def py_replace_char_lit ALL_PII_TYPES_def)

text \<open>
  C5, amended. For a non-empty explicit list, \<^verbatim>\<open>get_pii_types\<close> returns the tokens of the
  list in their order, each with its underscores replaced by spaces, whether or not
  they are categories of the taxonomy: nothing is validated and nothing is dropped.
\<close>

theorem get_pii_types_explicit:
  assumes "pii_types a = Some ts" and "ts \<noteq> []"
  shows "get_pii_types a = map (py_replace_char (CHR ''_'') (CHR '' '')) ts"
  using assms by (cases ts) (simp_all add: get_pii_types_def normalize_pii_types_def)

theorem get_pii_types_explicit_witness:
  "get_pii_types
     \<lparr>pii_types = Some [lit ''phone_number'', lit ''shoe_size''],
      pii = True, phi = False, pci = False\<rparr>
     = [lit ''phone number'', lit ''shoe size'']"
  using get_pii_types_explicit
    [of "\<lparr>pii_types = Some [lit ''phone_number'', lit ''shoe_size''],
           pii = True, phi = False, pci = False\<rparr>"
        "[lit ''phone_number'', lit ''shoe_size'']"]
  by (simp add: py_replace_char_lit)

section \<open>One entity of the loop\<close>

lemma py_isupper_single: "py_isupper ucd [c] = uc_isupper ucd c"
  by (simp add: py_isupper_def)

lemma py_isupper_Nil: "\<not> py_isupper ucd []"
  by (simp add: py_isupper_def)

lemma preserve_capitalization_spec:
  "preserve_capitalization ucd m r = case_shape_spec ucd m r"
  by (cases r) (auto simp: preserve_capitalization_def case_shape_spec_def py_isupper_single
      py_isupper_Nil py_upper_def)

lemma replace_entity_step:
  assumes "ent_label e = Some l" and "ent_text e = Some m"
  shows "replace_entity ucd fake e cur s =
           Inr (splice_entity e cur m
                  (preserve_capitalization ucd m (fst (get_replacement ucd fake l m s))),
                snd (get_replacement ucd fake l m s))"
  using assms by (simp add: replace_entity_def split: prod.splits)

lemma replace_loop_append:
  "replace_loop ucd fake (pre @ post) cur s =
     (case replace_loop ucd fake pre cur s of
        Inl err \<Rightarrow> Inl err
      | Inr (cur', s') \<Rightarrow> replace_loop ucd fake post cur' s')"
  by (induction pre arbitrary: cur s) (auto split: sum.splits)

lemma replace_pii_in_text_loop:
  "replace_pii_in_text ucd fake doc es s =
     replace_loop ucd fake (py_sorted_reverse start_key es) doc s"
  by (simp add: replace_pii_in_text_def py_sorted_reverse_def)

text \<open>
  When the sorted list is \<open>pre @ e # post\<close> and the loop over \<open>pre\<close> has made the text
  \<open>cur\<close>, the call rewrites \<open>e\<close> in \<open>cur\<close> and goes on with \<open>post\<close>.
\<close>

lemma replace_pii_in_text_at:
  assumes "py_sorted_reverse start_key entities = pre @ e # post"
    and "replace_loop ucd fake pre doc s_in = Inr (cur, s)"
    and "ent_label e = Some l" and "ent_text e = Some m"
  shows "replace_pii_in_text ucd fake doc entities s_in =
           replace_loop ucd fake post
             (splice_entity e cur m
                (preserve_capitalization ucd m (fst (get_replacement ucd fake l m s))))
             (snd (get_replacement ucd fake l m s))"
proof -
  have "replace_pii_in_text ucd fake doc entities s_in =
          replace_loop ucd fake (pre @ e # post) doc s_in"
    using assms(1) by (simp add: replace_pii_in_text_loop)
  also have "\<dots> = replace_loop ucd fake (e # post) cur s"
    using assms(2) by (simp add: replace_loop_append)
  also have "\<dots> = replace_loop ucd fake post
             (splice_entity e cur m
                (preserve_capitalization ucd m (fst (get_replacement ucd fake l m s))))
             (snd (get_replacement ucd fake l m s))"
    using replace_entity_step [OF assms(3,4), of ucd fake cur s] by simp
  finally show ?thesis .
qed

text \<open>
  C2. Let the sorted list of a call be \<open>pre @ e # post\<close> and \<open>cur\<close> the text that the loop
  has made of the spans before \<open>e\<close>. Then the string that \<^verbatim>\<open>replace_pii_in_text\<close> splices
  into \<open>cur\<close> for \<open>e\<close> is the synthesized replacement with its casing adjusted as the
  specification says (\<open>case_shape_spec\<close>): all of it upper-cased for an entirely
  upper-case matched substring; else its first character upper-cased for a matched
  substring that starts with an upper-case character, a single-character replacement
  being upper-cased as a whole; else left as it is; and left as it is for an empty
  matched substring. The casing is that of \<^verbatim>\<open>str.isupper\<close> and \<^verbatim>\<open>str.upper\<close>, for any
  Unicode database. The loop goes on with the spliced text; for the last span
  (\<open>post = []\<close>) it is the result.
\<close>

theorem case_shape_preserved:
  assumes "py_sorted_reverse start_key entities = pre @ e # post"
    and "replace_loop ucd fake pre doc s_in = Inr (cur, s)"
    and "ent_label e = Some l" and "ent_text e = Some m"
  shows "replace_entity ucd fake e cur s =
           Inr (splice_entity e cur m
                  (case_shape_spec ucd m (fst (get_replacement ucd fake l m s))),
                snd (get_replacement ucd fake l m s))
         \<and> replace_pii_in_text ucd fake doc entities s_in =
           replace_loop ucd fake post
             (splice_entity e cur m
                (case_shape_spec ucd m (fst (get_replacement ucd fake l m s))))
             (snd (get_replacement ucd fake l m s))"
  using replace_entity_step [OF assms(3,4), of ucd fake cur s] replace_pii_in_text_at [OF assms]
  by (simp add: preserve_capitalization_spec)

theorem case_shape_preserved_witness:
  "replace_pii_in_text unicode_fragment None (lit ''JOHN SMITH'')
     [\<lparr>ent_label = Some (lit ''name''), ent_text = Some (lit ''JOHN SMITH''),
       ent_start = Some 0, ent_end = Some 10\<rparr>] ()
     = Inr (lit ''JOHN DOE'', ())
   \<and> replace_pii_in_text unicode_fragment None (lit ''Jane@x.com'')
     [\<lparr>ent_label = Some (lit ''email address''), ent_text = Some (lit ''Jane@x.com''),
       ent_start = Some 0, ent_end = Some 10\<rparr>] ()
     = Inr (lit ''User@example.com'', ())
   \<and> replace_pii_in_text unicode_fragment (Some (\<lambda>key s. (lit ''z'', s))) (lit ''Grade Bx'')
     [\<lparr>ent_label = Some (lit ''age''), ent_text = Some (lit ''Bx''),
       ent_start = Some 6, ent_end = Some 8\<rparr>] ()
     = Inr (lit ''Grade Z'', ())
   \<and> replace_pii_in_text unicode_fragment None (lit [CHR 0xC9])
     [\<lparr>ent_label = Some (lit ''name''), ent_text = Some (lit [CHR 0xC9]),
       ent_start = Some 0, ent_end = Some 1\<rparr>] ()
     = Inr (lit ''JOHN DOE'', ())
   \<and> replace_pii_in_text unicode_fragment None (lit [CHR ''A'', CHR 0xE9])
     [\<lparr>ent_label = Some (lit ''email address''), ent_text = Some (lit [CHR ''A'', CHR 0xE9]),
       ent_start = Some 0, ent_end = Some 2\<rparr>] ()
     = Inr (lit ''User@example.com'', ())"
proof -
  let ?e1 = "\<lparr>ent_label = Some (lit ''name''), ent_text = Some (lit ''JOHN SMITH''),
              ent_start = Some 0, ent_end = Some 10\<rparr>"
  let ?e2 = "\<lparr>ent_label = Some (lit ''email address''), ent_text = Some (lit ''Jane@x.com''),
              ent_start = Some 0, ent_end = Some 10\<rparr>"
  let ?e3 = "\<lparr>ent_label = Some (lit ''age''), ent_text = Some (lit ''Bx''),
              ent_start = Some 6, ent_end = Some 8\<rparr>"
  let ?e4 = "\<lparr>ent_label = Some (lit ''name''), ent_text = Some (lit [CHR 0xC9]),
              ent_start = Some 0, ent_end = Some 1\<rparr>"
  let ?e5 = "\<lparr>ent_label = Some (lit ''email address''), ent_text = Some (lit [CHR ''A'', CHR 0xE9]),
              ent_start = Some 0, ent_end = Some 2\<rparr>"
  let ?z = "Some (\<lambda>key s. (lit ''z'', s))"
  have single: "py_sorted_reverse start_key [e] = [] @ e # []" for e :: entity
    by (simp add: py_sorted_reverse_def)
  have "replace_pii_in_text unicode_fragment None (lit ''JOHN SMITH'') [?e1] ()
          = Inr (splice_entity ?e1 (lit ''JOHN SMITH'') (lit ''JOHN SMITH'')
                   (case_shape_spec unicode_fragment (lit ''JOHN SMITH'') (lit ''John Doe'')), ())"
    using case_shape_preserved [OF single, of unicode_fragment None "lit ''JOHN SMITH''" "()"
        "lit ''JOHN SMITH''" "()" ?e1 "lit ''name''" "lit ''JOHN SMITH''"]
    by (simp add: get_replacement_fallbacks get_replacement_generated)
  moreover have "replace_pii_in_text unicode_fragment None (lit ''Jane@x.com'') [?e2] ()
          = Inr (splice_entity ?e2 (lit ''Jane@x.com'') (lit ''Jane@x.com'')
                   (case_shape_spec unicode_fragment (lit ''Jane@x.com'') (lit ''user@example.com'')), ())"
    using case_shape_preserved [OF single, of unicode_fragment None "lit ''Jane@x.com''" "()"
        "lit ''Jane@x.com''" "()" ?e2 "lit ''email address''" "lit ''Jane@x.com''"]
    by (simp add: get_replacement_fallbacks get_replacement_generated)
  moreover have "replace_pii_in_text unicode_fragment ?z (lit ''Grade Bx'') [?e3] ()
          = Inr (splice_entity ?e3 (lit ''Grade Bx'') (lit ''Bx'')
                   (case_shape_spec unicode_fragment (lit ''Bx'') (lit ''z'')), ())"
    using case_shape_preserved [OF single, of unicode_fragment ?z "lit ''Grade Bx''" "()"
        "lit ''Grade Bx''" "()" ?e3 "lit ''age''" "lit ''Bx''"]
    by (simp add: get_replacement_fallbacks get_replacement_generated)
  moreover have "replace_pii_in_text unicode_fragment None (lit [CHR 0xC9]) [?e4] ()
          = Inr (splice_entity ?e4 (lit [CHR 0xC9]) (lit [CHR 0xC9])
                   (case_shape_spec unicode_fragment (lit [CHR 0xC9]) (lit ''John Doe'')), ())"
    using case_shape_preserved [OF single, of unicode_fragment None "lit [CHR 0xC9]" "()"
        "lit [CHR 0xC9]" "()" ?e4 "lit ''name''" "lit [CHR 0xC9]"]
    by (simp add: get_replacement_fallbacks get_replacement_generated)
  moreover have "replace_pii_in_text unicode_fragment None (lit [CHR ''A'', CHR 0xE9]) [?e5] ()
          = Inr (splice_entity ?e5 (lit [CHR ''A'', CHR 0xE9]) (lit [CHR ''A'', CHR 0xE9])
                   (case_shape_spec unicode_fragment (lit [CHR ''A'', CHR 0xE9]) (lit ''user@example.com'')), ())"
    using case_shape_preserved [OF single, of unicode_fragment None "lit [CHR ''A'', CHR 0xE9]" "()"
        "lit [CHR ''A'', CHR 0xE9]" "()" ?e5 "lit ''email address''" "lit [CHR ''A'', CHR 0xE9]"]
    by (simp add: get_replacement_fallbacks get_replacement_generated)
  ultimately show ?thesis
    by (simp add: eval_defs)
qed

section \<open>The splice\<close>

lemma py_replace1_prefix:
  "prefix old s \<Longrightarrow> py_replace1 s old new = new @ drop (length old) s"
  by (cases s) auto

lemma py_replace1_first:
  "\<forall>i<length p. \<not> prefix old (drop i (p @ old @ q)) \<Longrightarrow>
   py_replace1 (p @ old @ q) old new = p @ new @ q"
proof (induction p)
  case Nil
  show ?case using py_replace1_prefix [of old "old @ q" new] by simp
next
  case (Cons x p)
  from Cons.prems have "\<not> prefix old (x # p @ old @ q)" by force
  moreover from Cons.prems have "\<forall>i<length p. \<not> prefix old (drop i (p @ old @ q))" by force
  ultimately show ?case using Cons.IH by simp
qed

lemma py_replace1_absent: "\<not> sublist old s \<Longrightarrow> py_replace1 s old new = s"
proof (induction s)
  case Nil
  then show ?case by auto
next
  case (Cons c cs)
  then have "\<not> prefix old (c # cs)" and "\<not> sublist old cs"
    by (auto simp: sublist_Cons_right)
  with Cons.IH show ?case by simp
qed

lemma slice_bound_nonneg: "0 \<le> i \<Longrightarrow> slice_bound i n = min (nat i) n"
  by (simp add: slice_bound_def)

lemma py_slice_to_nonneg: "0 \<le> i \<Longrightarrow> py_slice_to xs i = take (nat i) xs"
  by (simp add: py_slice_to_def slice_bound_nonneg min_def)

lemma py_slice_from_nonneg: "0 \<le> i \<Longrightarrow> py_slice_from xs i = drop (nat i) xs"
  by (simp add: py_slice_from_def slice_bound_nonneg min_def)

lemma splice_entity_both:
  assumes "ent_start e = Some a" and "ent_end e = Some b"
  shows "splice_entity e cur m r = py_slice_to cur a @ r @ py_slice_from cur b"
  using assms by (simp add: splice_entity_def)

lemma splice_entity_exact:
  assumes "ent_start e = Some a" and "ent_end e = Some b" and "cur = p @ x @ q"
    and "int (length p) = a" and "int (length (p @ x)) = b"
  shows "splice_entity e cur m r = p @ r @ q"
proof -
  have "0 \<le> a" "0 \<le> b" "nat a = length p" "nat b = length p + length x"
    using assms by auto
  then show ?thesis
    using assms by (simp add: splice_entity_def py_slice_to_nonneg py_slice_from_nonneg)
qed

lemma splice_entity_missing:
  assumes "ent_start e = None \<or> ent_end e = None"
  shows "splice_entity e cur m r = py_replace1 cur m r"
  using assms by (auto simp: splice_entity_def split: option.splits)

lemma splice_entity_first:
  assumes "ent_start e = None \<or> ent_end e = None" and "cur = p @ m @ q"
    and "\<forall>i<length p. \<not> prefix m (drop i cur)"
  shows "splice_entity e cur m r = p @ r @ q"
proof -
  have "\<forall>i<length p. \<not> prefix m (drop i (p @ m @ q))"
    using assms(3) unfolding assms(2) .
  then have "py_replace1 (p @ m @ q) m r = p @ r @ q"
    by (rule py_replace1_first)
  then show ?thesis
    using assms(1,2) by (simp add: splice_entity_missing)
qed

lemma splice_entity_absent:
  assumes "ent_start e = None \<or> ent_end e = None" and "\<not> sublist m cur"
  shows "splice_entity e cur m r = cur"
  using assms by (simp add: splice_entity_missing py_replace1_absent)

text \<open>
  C4. Let the sorted list of a call of \<^verbatim>\<open>replace_pii_in_text\<close> be \<open>pre @ e # post\<close>, let
  \<open>cur\<close> be the text that the loop has made of the spans before \<open>e\<close>, and \<open>r\<close> the cased
  replacement of \<open>e\<close>. With both offsets \<open>a\<close> and \<open>b\<close>, the call goes on from
  \<^verbatim>\<open>cur[:a] + r + cur[b:]\<close>; when the offsets lie in \<open>cur\<close>, that is \<open>cur = p @ x @ q\<close>
  with \<open>x = cur[a:b]\<close>, exactly \<open>x\<close> is replaced. With an offset missing, the left-most
  occurrence of the matched substring \<open>m\<close> in \<open>cur\<close> is replaced and nothing else, and
  \<open>cur\<close> is left as it is when \<open>m\<close> does not occur in it. For the last span
  (\<open>post = []\<close>) the spliced text is the result of the call.
\<close>

theorem splice_by_offsets_or_first_occurrence:
  assumes "py_sorted_reverse start_key entities = pre @ e # post"
    and "replace_loop ucd fake pre doc s_in = Inr (cur, s)"
    and "ent_label e = Some l" and "ent_text e = Some m"
    and "r = preserve_capitalization ucd m (fst (get_replacement ucd fake l m s))"
    and "s' = snd (get_replacement ucd fake l m s)"
  shows "(\<forall>a b. ent_start e = Some a \<and> ent_end e = Some b \<longrightarrow>
            replace_pii_in_text ucd fake doc entities s_in =
              replace_loop ucd fake post (py_slice_to cur a @ r @ py_slice_from cur b) s' \<and>
            (\<forall>p x q. cur = p @ x @ q \<and> int (length p) = a \<and> int (length (p @ x)) = b \<longrightarrow>
               replace_pii_in_text ucd fake doc entities s_in =
                 replace_loop ucd fake post (p @ r @ q) s'))
       \<and> (ent_start e = None \<or> ent_end e = None \<longrightarrow>
            (\<forall>p q. cur = p @ m @ q \<and> (\<forall>i<length p. \<not> prefix m (drop i cur)) \<longrightarrow>
               replace_pii_in_text ucd fake doc entities s_in =
                 replace_loop ucd fake post (p @ r @ q) s') \<and>
            (\<not> sublist m cur \<longrightarrow>
               replace_pii_in_text ucd fake doc entities s_in = replace_loop ucd fake post cur s'))"
proof -
  have step: "replace_pii_in_text ucd fake doc entities s_in =
                replace_loop ucd fake post (splice_entity e cur m r) s'"
    using replace_pii_in_text_at [OF assms(1-4)] assms(5,6) by simp
  show ?thesis
  proof (intro conjI allI impI)
    fix a b
    assume "ent_start e = Some a \<and> ent_end e = Some b"
    then show "replace_pii_in_text ucd fake doc entities s_in =
                 replace_loop ucd fake post (py_slice_to cur a @ r @ py_slice_from cur b) s'"
      using step by (simp add: splice_entity_both)
  next
    fix a b p x q
    assume "ent_start e = Some a \<and> ent_end e = Some b"
      and "cur = p @ x @ q \<and> int (length p) = a \<and> int (length (p @ x)) = b"
    then have "splice_entity e cur m r = p @ r @ q"
      by (intro splice_entity_exact [of e a b cur p x q]) simp_all
    with step show "replace_pii_in_text ucd fake doc entities s_in =
                      replace_loop ucd fake post (p @ r @ q) s'"
      by simp
  next
    fix p q
    assume missing: "ent_start e = None \<or> ent_end e = None"
      and occ: "cur = p @ m @ q \<and> (\<forall>i<length p. \<not> prefix m (drop i cur))"
    from occ have "cur = p @ m @ q" and "\<forall>i<length p. \<not> prefix m (drop i cur)"
      by blast+
    with missing have "splice_entity e cur m r = p @ r @ q"
      by (rule splice_entity_first)
    with step show "replace_pii_in_text ucd fake doc entities s_in =
                      replace_loop ucd fake post (p @ r @ q) s'"
      by simp
  next
    assume "ent_start e = None \<or> ent_end e = None" and "\<not> sublist m cur"
    then have "splice_entity e cur m r = cur"
      by (rule splice_entity_absent)
    with step show "replace_pii_in_text ucd fake doc entities s_in = replace_loop ucd fake post cur s'"
      by simp
  qed
qed

theorem splice_by_offsets_or_first_occurrence_witness:
  "replace_pii_in_text unicode_fragment None (lit ''Contact Jane Doe at jane@x.com'')
     [\<lparr>ent_label = Some (lit ''name''), ent_text = Some (lit ''Jane Doe''),
       ent_start = Some 8, ent_end = Some 16\<rparr>,
      \<lparr>ent_label = Some (lit ''email address''), ent_text = Some (lit ''jane@x.com''),
       ent_start = Some 20, ent_end = Some 30\<rparr>] ()
     = Inr (lit ''Contact John Doe at user@example.com'', ())
   \<and> replace_pii_in_text unicode_fragment None (lit ''So Jane met Jane'')
     [\<lparr>ent_label = Some (lit ''name given''), ent_text = Some (lit ''Jane''),
       ent_start = None, ent_end = None\<rparr>] ()
     = Inr (lit ''So John met Jane'', ())"
proof -
  let ?n = "\<lparr>ent_label = Some (lit ''name''), ent_text = Some (lit ''Jane Doe''),
             ent_start = Some 8, ent_end = Some 16\<rparr>"
  let ?m = "\<lparr>ent_label = Some (lit ''email address''), ent_text = Some (lit ''jane@x.com''),
             ent_start = Some 20, ent_end = Some 30\<rparr>"
  let ?g = "\<lparr>ent_label = Some (lit ''name given''), ent_text = Some (lit ''Jane''),
             ent_start = None, ent_end = None\<rparr>"
  let ?doc = "lit ''Contact Jane Doe at jane@x.com''"
  let ?cur = "lit ''Contact Jane Doe at user@example.com''"
  have sorted: "py_sorted_reverse start_key [?n, ?m] = [?m] @ ?n # []"
    by (simp add: py_sorted_reverse_def start_key_def)
  have before: "replace_loop unicode_fragment None [?m] ?doc () = Inr (?cur, ())"
    by (simp add: replace_entity_def get_replacement_fallbacks) (simp add: eval_defs)
  have r1: "lit ''John Doe'' = preserve_capitalization unicode_fragment (lit ''Jane Doe'')
              (fst (get_replacement unicode_fragment None (lit ''name'') (lit ''Jane Doe'') ()))"
    by (simp add: get_replacement_fallbacks) (simp add: eval_defs)
  have "replace_pii_in_text unicode_fragment None ?doc [?n, ?m] ()
          = Inr (py_slice_to ?cur 8 @ lit ''John Doe'' @ py_slice_from ?cur 16, ())"
    using splice_by_offsets_or_first_occurrence
      [OF sorted before _ _ r1 refl]
    by simp
  then have first: "replace_pii_in_text unicode_fragment None ?doc [?n, ?m] ()
          = Inr (lit ''Contact John Doe at user@example.com'', ())"
    by (simp add: eval_defs)
  have single: "py_sorted_reverse start_key [?g] = [] @ ?g # []"
    by (simp add: py_sorted_reverse_def)
  have start: "replace_loop unicode_fragment None []
                 (lit ''So '' @ lit ''Jane'' @ lit '' met Jane'') ()
               = Inr (lit ''So '' @ lit ''Jane'' @ lit '' met Jane'', ())"
    by simp
  have r2: "lit ''John'' = preserve_capitalization unicode_fragment (lit ''Jane'')
              (fst (get_replacement unicode_fragment None (lit ''name given'') (lit ''Jane'') ()))"
    by (simp add: get_replacement_fallbacks) (simp add: eval_defs)
  have occ: "\<forall>i<length (lit ''So ''). \<not> prefix (lit ''Jane'')
               (drop i (lit ''So '' @ lit ''Jane'' @ lit '' met Jane''))"
    by (simp add: lit_def less_Suc_eq)
  have "replace_pii_in_text unicode_fragment None
          (lit ''So '' @ lit ''Jane'' @ lit '' met Jane'') [?g] ()
          = Inr (lit ''So '' @ lit ''John'' @ lit '' met Jane'', ())"
    using splice_by_offsets_or_first_occurrence
      [OF single start _ _ r2 refl] occ
    by (simp del: append.simps drop_append)
  then have second: "replace_pii_in_text unicode_fragment None (lit ''So Jane met Jane'') [?g] ()
          = Inr (lit ''So John met Jane'', ())"
    by (simp add: lit_def)
  from first second show ?thesis by (rule conjI)
qed

section \<open>No exception on well-formed spans\<close>

lemma replace_loop_total:
  "\<forall>e\<in>set es. ent_label e \<noteq> None \<and> ent_text e \<noteq> None \<Longrightarrow>
   \<exists>out s'. replace_loop ucd fake es cur s = Inr (out, s')"
proof (induction es arbitrary: cur s)
  case Nil
  show ?case by simp
next
  case (Cons e es)
  then obtain l m where "ent_label e = Some l" "ent_text e = Some m" by auto
  then obtain cur' s1 where "replace_entity ucd fake e cur s = Inr (cur', s1)"
    by (cases "get_replacement ucd fake l m s") (simp add: replace_entity_def)
  moreover have "\<exists>out s'. replace_loop ucd fake es cur' s1 = Inr (out, s')"
    using Cons by simp
  ultimately show ?case by simp
qed

text \<open>
  C8. For every text and every list of well-formed entity spans, \<^verbatim>\<open>replace_pii_in_text\<close>
  returns a string: the function is total, so it terminates, and its result is never an
  exception. Empty matched substrings and empty or one-character replacements are
  among the inputs.
\<close>

theorem replace_pii_in_text_no_exception:
  assumes "list_all (well_formed doc) entities"
  shows "\<exists>out s'. replace_pii_in_text ucd fake doc entities s = Inr (out, s')"
proof -
  have "\<forall>e\<in>set (py_sorted_reverse start_key entities). ent_label e \<noteq> None \<and> ent_text e \<noteq> None"
    using assms by (auto simp: list_all_iff well_formed_def py_sorted_reverse_def)
  from replace_loop_total [OF this, of ucd fake doc s] show ?thesis
    by (simp add: replace_pii_in_text_def)
qed

theorem replace_pii_in_text_no_exception_witness:
  "list_all (well_formed (lit ''Call Jane now''))
     [\<lparr>ent_label = Some (lit ''name given''), ent_text = Some (lit ''Jane''),
       ent_start = Some 5, ent_end = Some 9\<rparr>,
      \<lparr>ent_label = Some (lit ''mood''), ent_text = Some [],
       ent_start = Some 13, ent_end = Some 13\<rparr>,
      \<lparr>ent_label = Some (lit ''name given''), ent_text = Some (lit ''Jane''),
       ent_start = None, ent_end = None\<rparr>]
   \<and> (\<exists>out s'. replace_pii_in_text unicode_fragment (Some (\<lambda>key s. ([], s))) (lit ''Call Jane now'')
     [\<lparr>ent_label = Some (lit ''name given''), ent_text = Some (lit ''Jane''),
       ent_start = Some 5, ent_end = Some 9\<rparr>,
      \<lparr>ent_label = Some (lit ''mood''), ent_text = Some [],
       ent_start = Some 13, ent_end = Some 13\<rparr>,
      \<lparr>ent_label = Some (lit ''name given''), ent_text = Some (lit ''Jane''),
       ent_start = None, ent_end = None\<rparr>] ()
      = Inr (out, s'))"
proof -
  have wf: "list_all (well_formed (lit ''Call Jane now''))
     [\<lparr>ent_label = Some (lit ''name given''), ent_text = Some (lit ''Jane''),
       ent_start = Some 5, ent_end = Some 9\<rparr>,
      \<lparr>ent_label = Some (lit ''mood''), ent_text = Some [],
       ent_start = Some 13, ent_end = Some 13\<rparr>,
      \<lparr>ent_label = Some (lit ''name given''), ent_text = Some (lit ''Jane''),
       ent_start = None, ent_end = None\<rparr>]"
    by (simp add: well_formed_def lit_def)
  from wf replace_pii_in_text_no_exception
    [OF wf, of unicode_fragment "Some (\<lambda>key s. ([], s))" "()"]
  show ?thesis by (rule conjI)
qed

section \<open>Characters outside the spans\<close>

subsection \<open>The characters that a set of offsets leaves out\<close>

lemma map_nth_upt_slice:
  "k \<le> length doc \<Longrightarrow> map (\<lambda>i. doc ! i) [j..<k] = drop j (take k doc)"
  by (rule nth_equalityI) auto

lemma keep_split:
  assumes "j \<le> k" and "k \<le> length doc"
  shows "keep cov doc j = map (\<lambda>i. doc ! i) (filter (\<lambda>i. \<not> cov i) [j..<k]) @ keep cov doc k"
proof -
  have "[j..<length doc] = [j..<k] @ [k..<length doc]"
    using assms by (metis le_add_diff_inverse upt_add_eq_append)
  then show ?thesis by (simp add: keep_def)
qed

lemma subseq_keep_slice:
  assumes "k \<le> length doc"
  shows "subseq (map (\<lambda>i. doc ! i) (filter (\<lambda>i. \<not> cov i) [j..<k])) (drop j (take k doc))"
proof -
  have "subseq (map (\<lambda>i. doc ! i) (filter (\<lambda>i. \<not> cov i) [j..<k])) (map (\<lambda>i. doc ! i) [j..<k])"
    by (rule subseq_map) simp
  then show ?thesis using assms by (simp add: map_nth_upt_slice)
qed

lemma keep_mono:
  assumes "\<And>i. cov i \<Longrightarrow> cov' i"
  shows "subseq (keep cov' doc j) (keep cov doc j)"
proof -
  have "filter (\<lambda>i. \<not> cov' i) [j..<length doc]
          = filter (\<lambda>i. \<not> cov' i) (filter (\<lambda>i. \<not> cov i) [j..<length doc])"
    using assms by (auto intro: filter_cong)
  then have "subseq (filter (\<lambda>i. \<not> cov' i) [j..<length doc]) (filter (\<lambda>i. \<not> cov i) [j..<length doc])"
    by (metis subseq_filter_left)
  then show ?thesis unfolding keep_def by (rule subseq_map)
qed

lemma keep_skip_covered:
  assumes "a \<le> b" and "b \<le> length doc" and "\<And>i. a \<le> i \<Longrightarrow> i < b \<Longrightarrow> cov i"
  shows "keep cov doc a = keep cov doc b"
proof -
  have "filter (\<lambda>i. \<not> cov i) [a..<b] = []"
    using assms(3) by (auto simp: filter_empty_conv)
  then show ?thesis using keep_split [OF assms(1,2), of cov] by simp
qed

lemma keep_cong: "(\<And>i. cov i = cov' i) \<Longrightarrow> keep cov doc j = keep cov' doc j"
  by (simp add: keep_def)

subsection \<open>The invariant of the loop\<close>

lemma subseq_drop_prepend:
  assumes "subseq ys (drop k Y)"
  shows "subseq ys (drop k (r @ Y))"
proof -
  have "drop k Y = drop (k - (k - length r)) (drop (k - length r) Y)"
    by simp
  then have "suffix (drop k Y) (drop (k - length r) Y)"
    by (metis suffix_drop)
  then have "subseq (drop k Y) (drop (k - length r) Y)"
    by (rule suffix_imp_subseq)
  with assms have "subseq ys (drop (k - length r) Y)"
    by (rule subseq_order.trans)
  then have "subseq ys (drop k r @ drop (k - length r) Y)"
    by (rule list_emb_append2)
  then show ?thesis by simp
qed

text \<open>An insertion in front of the rest keeps the invariant.\<close>

lemma kept_from_prepend:
  "kept_from cov doc a b Y \<Longrightarrow> kept_from cov doc a b (r @ Y)"
  unfolding kept_from_def by (blast intro: subseq_drop_prepend)

text \<open>The invariant read from a lower offset \<open>a\<close>: the rest grows by \<open>doc[a:m]\<close>.\<close>

lemma kept_from_rebase:
  assumes inv: "kept_from cov doc m b X" and "a \<le> m" and "m \<le> b" and "m \<le> length doc"
  shows "kept_from cov doc a b (drop a (take m doc) @ X)"
  unfolding kept_from_def
proof (intro allI impI)
  fix j
  assume j: "a \<le> j \<and> j \<le> b"
  show "subseq (keep cov doc j) (drop (j - a) (drop a (take m doc) @ X))"
  proof (cases "j \<le> m")
    case True
    have "subseq (keep cov doc m) X"
      using inv assms(3) unfolding kept_from_def by fastforce
    moreover have "subseq (map (\<lambda>i. doc ! i) (filter (\<lambda>i. \<not> cov i) [j..<m])) (drop j (take m doc))"
      using assms(4) by (rule subseq_keep_slice)
    ultimately have "subseq (keep cov doc j) (drop j (take m doc) @ X)"
      using keep_split [OF True assms(4), of cov] by (simp add: list_emb_append_mono)
    moreover have "drop (j - a) (drop a (take m doc) @ X) = drop j (take m doc) @ X"
      using True j assms(2,4) by simp
    ultimately show ?thesis by simp
  next
    case False
    then have "drop (j - a) (drop a (take m doc) @ X) = drop (j - m) X"
      using j assms(2,4) by (simp add: min_def)
    moreover have "subseq (keep cov doc j) (drop (j - m) X)"
      using inv j False unfolding kept_from_def by simp
    ultimately show ?thesis by simp
  qed
qed

text \<open>Replacing the range from \<open>a\<close> to \<open>be\<close>, which is then covered.\<close>

lemma kept_from_cover:
  assumes inv: "kept_from cov doc a b Y" and "a \<le> be" and "be \<le> b" and "be \<le> length doc"
  shows "kept_from (\<lambda>i. cov i \<or> (a \<le> i \<and> i < be)) doc a a (r @ drop (be - a) Y)"
  unfolding kept_from_def
proof (intro allI impI)
  fix j
  assume "a \<le> j \<and> j \<le> a"
  then have j: "j = a" by simp
  let ?cov = "\<lambda>i. cov i \<or> (a \<le> i \<and> i < be)"
  have "keep ?cov doc a = keep ?cov doc be"
    using assms(2,4) by (rule keep_skip_covered) simp
  moreover have "subseq (keep ?cov doc be) (keep cov doc be)"
    by (rule keep_mono) simp
  moreover have "subseq (keep cov doc be) (drop (be - a) Y)"
    using inv assms(2,3) unfolding kept_from_def by simp
  ultimately have "subseq (keep ?cov doc a) (drop (be - a) Y)"
    by (metis subseq_order.trans)
  then have "subseq (keep ?cov doc a) (r @ drop (be - a) Y)"
    by (rule list_emb_append2)
  then show "subseq (keep ?cov doc j) (drop (j - a) (r @ drop (be - a) Y))"
    using j by simp
qed

subsection \<open>The loop keeps the characters outside the spans\<close>

text \<open>For valid offsets, the ranges of two entities overlap exactly when they share an offset.\<close>

lemma overlap_shared_offset:
  assumes "valid_offsets doc e1" and "valid_offsets doc e2"
  shows "overlap e1 e2 = (\<exists>i. in_span e1 i \<and> in_span e2 i)"
proof -
  from assms obtain a1 b1 a2 b2 where o:
    "ent_start e1 = Some a1" "ent_end e1 = Some b1" "ent_start e2 = Some a2" "ent_end e2 = Some b2"
    and nn: "0 \<le> a1" "0 \<le> a2"
    by (auto simp: valid_offsets_def split: option.splits)
  show ?thesis
  proof
    assume "overlap e1 e2"
    with o have "max a1 a2 < min b1 b2" by (simp add: overlap_def)
    moreover from nn have "0 \<le> max a1 a2" by linarith
    then have "int (nat (max a1 a2)) = max a1 a2" by (rule nat_0_le)
    ultimately have "in_span e1 (nat (max a1 a2)) \<and> in_span e2 (nat (max a1 a2))"
      using o by (simp add: in_span_def del: int_nat_eq)
    then show "\<exists>i. in_span e1 i \<and> in_span e2 i" ..
  next
    assume "\<exists>i. in_span e1 i \<and> in_span e2 i"
    then obtain i where "in_span e1 i" "in_span e2 i" by blast
    with o show "overlap e1 e2" by (simp add: in_span_def overlap_def)
  qed
qed

lemma valid_offsetsD:
  assumes "valid_offsets doc e"
  obtains a be where "ent_start e = Some (int a)" and "ent_end e = Some (int be)"
    and "a \<le> be" and "be \<le> length doc"
proof -
  from assms obtain st en where se: "ent_start e = Some st" "ent_end e = Some en"
    and b: "0 \<le> st" "st \<le> en" "en \<le> int (length doc)"
    by (auto simp: valid_offsets_def split: option.splits)
  show thesis
  proof (rule that [of "nat st" "nat en"])
    show "ent_start e = Some (int (nat st))" using se b by simp
    show "ent_end e = Some (int (nat en))" using se b by simp
    show "nat st \<le> nat en" using b by simp
    show "nat en \<le> length doc" using b by simp
  qed
qed

lemma splice_entity_offsets:
  assumes "ent_start e = Some (int a)" and "ent_end e = Some (int be)"
  shows "splice_entity e cur m r = take a cur @ r @ drop be cur"
  using assms by (simp add: splice_entity_def py_slice_to_nonneg py_slice_from_nonneg)

text \<open>
  The entities still to come start at or below \<open>m\<close>, in descending order, and end at or
  below \<open>b\<close>; the loop then returns a text that holds, in their order, the characters
  left out by the ranges rewritten before and by those of the entities to come.
\<close>

lemma replace_loop_keeps:
  assumes "\<forall>e\<in>set L. ent_label e \<noteq> None \<and> ent_text e \<noteq> None \<and> valid_offsets doc e"
    and "sorted_wrt (\<lambda>x y. start_key y \<le> start_key x) L"
    and "sorted_wrt (\<lambda>x y. \<not> overlap x y) L"
    and "\<forall>e\<in>set L. start_key e \<le> int m \<and> end_key e \<le> int b"
    and "m \<le> b" and "b \<le> length doc"
    and "cur = take m doc @ X"
    and "kept_from cov doc m b X"
  shows "\<exists>out s'. replace_loop ucd fake L cur s = Inr (out, s')
           \<and> subseq (keep (\<lambda>i. cov i \<or> covered L i) doc 0) out"
  using assms
proof (induction L arbitrary: m b X cur s cov)
  case Nil
  have "subseq (keep cov doc m) X"
    using Nil.prems(5,8) unfolding kept_from_def by fastforce
  moreover have "subseq (map (\<lambda>i. doc ! i) (filter (\<lambda>i. \<not> cov i) [0..<m])) (take m doc)"
    using subseq_keep_slice [of m doc cov 0] Nil.prems(5,6) by simp
  ultimately have "subseq (keep cov doc 0) (take m doc @ X)"
    using keep_split [of 0 m doc cov] Nil.prems(5,6) by (simp add: list_emb_append_mono)
  then show ?case
    using Nil.prems(7) by (simp add: covered_def)
next
  case (Cons e L)
  from Cons.prems(1) obtain l mt where lt: "ent_label e = Some l" "ent_text e = Some mt"
    and valid: "valid_offsets doc e"
    by auto
  from valid obtain a be where se: "ent_start e = Some (int a)" "ent_end e = Some (int be)"
    and ab: "a \<le> be" "be \<le> length doc"
    by (rule valid_offsetsD)
  from Cons.prems(4) se have low: "a \<le> m" "be \<le> b"
    by (simp_all add: start_key_def end_key_def)
  define r where "r = preserve_capitalization ucd mt (fst (get_replacement ucd fake l mt s))"
  define s1 where "s1 = snd (get_replacement ucd fake l mt s)"
  define Y where "Y = drop a (take m doc) @ X"
  define X' where "X' = r @ drop (be - a) Y"
  define cov' where "cov' = (\<lambda>i. cov i \<or> in_span e i)"
  have span: "in_span e i = (a \<le> i \<and> i < be)" for i
    using se by (simp add: in_span_def)
  have cur: "cur = take a doc @ Y"
  proof -
    have "take m doc = take a (take m doc) @ drop a (take m doc)"
      by (simp only: append_take_drop_id)
    also have "take a (take m doc) = take a doc" using low(1) by (simp add: min_def)
    finally show ?thesis using Cons.prems(7) by (simp add: Y_def)
  qed
  have len: "length (take a doc) = a"
    using ab by simp
  have step: "replace_entity ucd fake e cur s = Inr (take a doc @ X', s1)"
  proof -
    have "replace_entity ucd fake e cur s = Inr (splice_entity e cur mt r, s1)"
      using lt by (simp add: replace_entity_def r_def s1_def split: prod.splits)
    moreover have "take a cur = take a doc"
      using cur len by simp
    moreover have "drop be cur = drop (be - a) Y"
      using cur len ab(1) by simp
    ultimately show ?thesis
      using splice_entity_offsets [OF se] by (simp add: X'_def)
  qed
  have Yinv: "kept_from cov doc a b Y"
    unfolding Y_def using Cons.prems(8) low(1) Cons.prems(5) _
    by (rule kept_from_rebase) (use Cons.prems(5,6) in simp)
  have rest_valid: "\<forall>e\<in>set L. ent_label e \<noteq> None \<and> ent_text e \<noteq> None \<and> valid_offsets doc e"
    using Cons.prems(1) by simp
  have rest_sorted: "sorted_wrt (\<lambda>x y. start_key y \<le> start_key x) L"
    and rest_disj: "sorted_wrt (\<lambda>x y. \<not> overlap x y) L"
    using Cons.prems(2,3) by simp_all
  have rest_start: "\<forall>x\<in>set L. start_key x \<le> int a"
    using Cons.prems(2) se by (simp add: start_key_def)
  have final: "(\<lambda>i. cov' i \<or> covered L i) = (\<lambda>i. cov i \<or> covered (e # L) i)"
    by (rule ext) (simp add: cov'_def covered_def)
  have "\<exists>out s'. replace_loop ucd fake L (take a doc @ X') s1 = Inr (out, s')
           \<and> subseq (keep (\<lambda>i. cov' i \<or> covered L i) doc 0) out"
  proof (cases "a < be")
    case True
    have rest_end: "\<forall>x\<in>set L. end_key x \<le> int a"
    proof
      fix x
      assume x: "x \<in> set L"
      with rest_valid have "valid_offsets doc x" by simp
      then obtain a' b' where x_se: "ent_start x = Some (int a')" "ent_end x = Some (int b')"
        and x_ab: "a' \<le> b'"
        by (rule valid_offsetsD)
      from rest_start x have "start_key x \<le> int a" by blast
      with x_se have "a' \<le> a" by (simp add: start_key_def)
      moreover from Cons.prems(3) x have "\<not> overlap e x" by simp
      ultimately have "b' \<le> a"
        using se x_se True x_ab by (simp add: overlap_def max_def min_def split: if_splits)
      then show "end_key x \<le> int a" using x_se by (simp add: end_key_def)
    qed
    have "kept_from (\<lambda>i. cov i \<or> (a \<le> i \<and> i < be)) doc a a (r @ drop (be - a) Y)"
      using Yinv ab(1) low(2) ab(2) by (rule kept_from_cover)
    then have inv': "kept_from cov' doc a a X'"
      by (simp add: cov'_def span X'_def)
    show ?thesis
      by (rule Cons.IH [OF rest_valid rest_sorted rest_disj _ _ _ refl inv'])
        (use rest_start rest_end ab in auto)
  next
    case False
    with ab have eq: "be = a" by simp
    have "kept_from cov doc a b (r @ Y)"
      using Yinv by (rule kept_from_prepend)
    moreover have "keep cov' doc j = keep cov doc j" for j
      by (rule keep_cong) (auto simp: cov'_def span eq)
    ultimately have inv': "kept_from cov' doc a b X'"
      by (simp add: kept_from_def X'_def eq)
    have rest_end: "\<forall>x\<in>set L. end_key x \<le> int b"
      using Cons.prems(4) by simp
    show ?thesis
      by (rule Cons.IH [OF rest_valid rest_sorted rest_disj _ _ _ refl inv'])
        (use rest_start rest_end low Cons.prems(5,6) in auto)
  qed
  then show ?case
    using step final by simp
qed

subsection \<open>The sorted list\<close>

lemma non_overlapping_sorted_wrt:
  "non_overlapping es = sorted_wrt (\<lambda>x y. \<not> overlap x y) es"
  by (induction es) (auto simp: list_all_iff)

lemma overlap_sym: "overlap x y = overlap y x"
  by (auto simp: overlap_def max.commute min.commute split: option.splits)

lemma sorted_wrt_insort_key:
  assumes "\<And>x y. P x y \<Longrightarrow> P y x" and "sorted_wrt P xs" and "\<forall>y\<in>set xs. P x y"
  shows "sorted_wrt P (insort_key f x xs)"
  using assms(2,3)
proof (induction xs)
  case Nil
  show ?case by simp
next
  case (Cons y ys)
  then show ?case using assms(1) by (auto simp: set_insort_key)
qed

lemma sorted_wrt_sort_key:
  assumes "\<And>x y. P x y \<Longrightarrow> P y x" and "sorted_wrt P xs"
  shows "sorted_wrt P (sort_key f xs)"
  using assms(2)
proof (induction xs)
  case Nil
  show ?case by simp
next
  case (Cons x xs)
  then have "sorted_wrt P (sort_key f xs)" and "\<forall>y\<in>set (sort_key f xs). P x y"
    by simp_all
  with assms(1) have "sorted_wrt P (insort_key f x (sort_key f xs))"
    by (rule sorted_wrt_insort_key)
  then show ?case by (simp add: sort_key_def)
qed

lemma sorted_wrt_sym_rev:
  assumes "\<And>x y. P x y \<Longrightarrow> P y x"
  shows "sorted_wrt P (rev xs) = sorted_wrt P xs"
proof -
  have "(\<lambda>x y. P y x) = P" using assms by (intro ext) blast
  then show ?thesis by (simp add: sorted_wrt_rev)
qed

lemma py_sorted_reverse_disjoint:
  assumes "non_overlapping es"
  shows "sorted_wrt (\<lambda>x y. \<not> overlap x y) (py_sorted_reverse key es)"
proof -
  have sym: "\<And>x y. \<not> overlap x y \<Longrightarrow> \<not> overlap y x"
    by (simp add: overlap_sym)
  have "sorted_wrt (\<lambda>x y. \<not> overlap x y) (rev es)"
    using assms sym by (simp add: non_overlapping_sorted_wrt sorted_wrt_sym_rev)
  then have "sorted_wrt (\<lambda>x y. \<not> overlap x y) (sort_key key (rev es))"
    using sym by (rule sorted_wrt_sort_key [rotated])
  then show ?thesis
    using sym by (simp add: py_sorted_reverse_def sorted_wrt_sym_rev)
qed

lemma py_sorted_reverse_descending:
  "sorted_wrt (\<lambda>x y. key y \<le> key x) (py_sorted_reverse key es)"
proof -
  have "sorted (map key (sort_key key (rev es)))" by simp
  then have "sorted_wrt (\<lambda>x y. key x \<le> key y) (sort_key key (rev es))"
    by (simp only: sorted_map)
  then show ?thesis
    by (simp add: py_sorted_reverse_def sorted_wrt_rev)
qed

lemma set_py_sorted_reverse: "set (py_sorted_reverse key es) = set es"
  by (simp add: py_sorted_reverse_def)

lemma covered_set: "set es = set es' \<Longrightarrow> covered es i = covered es' i"
  by (simp add: covered_def list_ex_iff)

text \<open>Two lists with the same entities and pairwise distinct keys are sorted alike.\<close>

lemma py_sorted_reverse_perm:
  assumes "distinct (map key xs)" and "mset ys = mset xs"
  shows "py_sorted_reverse key ys = py_sorted_reverse key xs"
proof -
  have "set ys = set xs"
    using assms(2) by (rule mset_eq_setD)
  moreover have "inj_on key (set xs)"
    using assms(1) by (simp add: distinct_map)
  ultimately have inj: "inj_on key (set (rev ys))" by simp
  have perm: "mset (rev ys) = mset (sort_key key (rev xs))"
    using assms(2) by simp
  have "sorted (map key (sort_key key (rev xs)))" by simp
  with perm inj have "sort_key key (rev ys) = sort_key key (rev xs)"
    by (rule sort_key_inj_key_eq)
  then show ?thesis by (simp add: py_sorted_reverse_def)
qed

subsection \<open>The claim\<close>

text \<open>
  C1. For every text and every list of entity spans that all carry offsets with
  \<open>0 \<le> start \<le> end \<le> len(text)\<close> and whose ranges are pairwise non-overlapping,
  \<^verbatim>\<open>replace_pii_in_text\<close> returns a text in which every character of the input outside
  the union of the ranges appears unchanged and in the same relative order: the
  characters outside the ranges form a subsequence of the output. Spans with an empty
  range are among the inputs.
\<close>

theorem untouched_characters_preserved:
  assumes "list_all (\<lambda>e. ent_label e \<noteq> None \<and> ent_text e \<noteq> None \<and> valid_offsets doc e) entities"
    and "non_overlapping entities"
  shows "\<exists>out s'. replace_pii_in_text ucd fake doc entities s = Inr (out, s')
           \<and> subseq (untouched doc entities) out"
proof -
  let ?L = "py_sorted_reverse start_key entities"
  have valid: "\<forall>e\<in>set ?L. ent_label e \<noteq> None \<and> ent_text e \<noteq> None \<and> valid_offsets doc e"
    using assms(1) by (simp add: set_py_sorted_reverse list_all_iff)
  have bounds: "\<forall>e\<in>set ?L. start_key e \<le> int (length doc) \<and> end_key e \<le> int (length doc)"
  proof
    fix e
    assume "e \<in> set ?L"
    with valid have "valid_offsets doc e" by simp
    then show "start_key e \<le> int (length doc) \<and> end_key e \<le> int (length doc)"
      by (auto simp: valid_offsets_def start_key_def end_key_def split: option.splits)
  qed
  have inv: "kept_from (\<lambda>i. False) doc (length doc) (length doc) []"
    by (simp add: kept_from_def keep_def)
  have "\<exists>out s'. replace_loop ucd fake ?L doc s = Inr (out, s')
           \<and> subseq (keep (\<lambda>i. False \<or> covered ?L i) doc 0) out"
    by (rule replace_loop_keeps [OF valid py_sorted_reverse_descending
          py_sorted_reverse_disjoint [OF assms(2)] bounds _ _ _ inv]) simp_all
  moreover have "covered ?L i = covered entities i" for i
    by (rule covered_set) (rule set_py_sorted_reverse)
  ultimately show ?thesis
    by (simp add: replace_pii_in_text_loop untouched_def)
qed

theorem untouched_characters_preserved_witness:
  "list_all (\<lambda>e. ent_label e \<noteq> None \<and> ent_text e \<noteq> None
                 \<and> valid_offsets (lit ''Contact Jane Doe at jane@x.com'') e)
     [\<lparr>ent_label = Some (lit ''name''), ent_text = Some (lit ''Jane Doe''),
       ent_start = Some 8, ent_end = Some 16\<rparr>,
      \<lparr>ent_label = Some (lit ''email address''), ent_text = Some (lit ''jane@x.com''),
       ent_start = Some 20, ent_end = Some 30\<rparr>]
   \<and> non_overlapping
     [\<lparr>ent_label = Some (lit ''name''), ent_text = Some (lit ''Jane Doe''),
       ent_start = Some 8, ent_end = Some 16\<rparr>,
      \<lparr>ent_label = Some (lit ''email address''), ent_text = Some (lit ''jane@x.com''),
       ent_start = Some 20, ent_end = Some 30\<rparr>]
   \<and> replace_pii_in_text unicode_fragment None (lit ''Contact Jane Doe at jane@x.com'')
     [\<lparr>ent_label = Some (lit ''name''), ent_text = Some (lit ''Jane Doe''),
       ent_start = Some 8, ent_end = Some 16\<rparr>,
      \<lparr>ent_label = Some (lit ''email address''), ent_text = Some (lit ''jane@x.com''),
       ent_start = Some 20, ent_end = Some 30\<rparr>] ()
     = Inr (lit ''Contact John Doe at user@example.com'', ())
   \<and> subseq (lit ''Contact  at '') (lit ''Contact John Doe at user@example.com'')"
proof -
  let ?doc = "lit ''Contact Jane Doe at jane@x.com''"
  let ?es = "[\<lparr>ent_label = Some (lit ''name''), ent_text = Some (lit ''Jane Doe''),
                ent_start = Some 8, ent_end = Some 16\<rparr>,
              \<lparr>ent_label = Some (lit ''email address''), ent_text = Some (lit ''jane@x.com''),
                ent_start = Some 20, ent_end = Some 30\<rparr>]"
  have h1: "list_all (\<lambda>e. ent_label e \<noteq> None \<and> ent_text e \<noteq> None \<and> valid_offsets ?doc e) ?es"
    by (simp add: valid_offsets_def lit_def)
  have h2: "non_overlapping ?es"
    by (simp add: overlap_def)
  have v: "replace_pii_in_text unicode_fragment None ?doc ?es ()
             = Inr (lit ''Contact John Doe at user@example.com'', ())"
    by (simp add: run_defs get_replacement_fallbacks) (simp add: eval_defs)
  have u: "untouched ?doc ?es = lit ''Contact  at ''"
    by code_simp
  from untouched_characters_preserved [OF h1 h2, of unicode_fragment None "()"] v u
  have "subseq (lit ''Contact  at '') (lit ''Contact John Doe at user@example.com'')"
    by simp
  with h1 h2 v show ?thesis by simp
qed

section \<open>The order of the list of spans\<close>

text \<open>Valid, pairwise non-overlapping spans with non-empty ranges start at distinct offsets.\<close>

lemma non_empty_disjoint_distinct_starts:
  assumes "list_all (\<lambda>e. valid_offsets doc e \<and> start_key e < end_key e) es"
    and "non_overlapping es"
  shows "distinct (map start_key es)"
  using assms
proof (induction es)
  case Nil
  show ?case by simp
next
  case (Cons x xs)
  have "start_key x \<noteq> start_key y" if y: "y \<in> set xs" for y
  proof
    assume same: "start_key x = start_key y"
    from Cons.prems(1) y have "valid_offsets doc x" "start_key x < end_key x"
      and "valid_offsets doc y" "start_key y < end_key y"
      by (simp_all add: list_all_iff)
    with same have "overlap x y"
      by (auto simp: valid_offsets_def overlap_def start_key_def end_key_def split: option.splits)
    moreover from Cons.prems(2) y have "\<not> overlap x y"
      by (simp add: list_all_iff)
    ultimately show False by simp
  qed
  moreover have "distinct (map start_key xs)"
    using Cons by simp
  ultimately show ?case by auto
qed

text \<open>
  C3, as the specification states it, does not hold. The sort is by start offset only
  and keeps the given order of spans with the same start. A span with an empty range
  overlaps no other span, so it can share its start with another one; the two are then
  rewritten in the order of the list, and the second splice is cut out of the text that
  the first one has changed. In \<^verbatim>\<open>id 4821 ok\<close>, with the empty \<^verbatim>\<open>cvv\<close> span at offset 3
  and the \<^verbatim>\<open>pin\<close> span from 3 to 7, both with valid offsets and without the Faker library,
  one order of the list gives \<^verbatim>\<open>id 1234821 ok\<close> and the other \<^verbatim>\<open>id 1231234 ok\<close>.
\<close>

theorem permutation_counterexample:
  "list_all (valid_offsets (lit ''id 4821 ok''))
     [\<lparr>ent_label = Some (lit ''cvv''), ent_text = Some [], ent_start = Some 3, ent_end = Some 3\<rparr>,
      \<lparr>ent_label = Some (lit ''pin''), ent_text = Some (lit ''4821''), ent_start = Some 3, ent_end = Some 7\<rparr>]
   \<and> non_overlapping
     [\<lparr>ent_label = Some (lit ''cvv''), ent_text = Some [], ent_start = Some 3, ent_end = Some 3\<rparr>,
      \<lparr>ent_label = Some (lit ''pin''), ent_text = Some (lit ''4821''), ent_start = Some 3, ent_end = Some 7\<rparr>]
   \<and> mset [\<lparr>ent_label = Some (lit ''pin''), ent_text = Some (lit ''4821''), ent_start = Some 3, ent_end = Some 7\<rparr>,
            \<lparr>ent_label = Some (lit ''cvv''), ent_text = Some [], ent_start = Some 3, ent_end = Some 3\<rparr>]
     = mset [\<lparr>ent_label = Some (lit ''cvv''), ent_text = Some [], ent_start = Some 3, ent_end = Some 3\<rparr>,
            \<lparr>ent_label = Some (lit ''pin''), ent_text = Some (lit ''4821''), ent_start = Some 3, ent_end = Some 7\<rparr>]
   \<and> replace_pii_in_text unicode_fragment None (lit ''id 4821 ok'')
     [\<lparr>ent_label = Some (lit ''cvv''), ent_text = Some [], ent_start = Some 3, ent_end = Some 3\<rparr>,
      \<lparr>ent_label = Some (lit ''pin''), ent_text = Some (lit ''4821''), ent_start = Some 3, ent_end = Some 7\<rparr>] ()
     = Inr (lit ''id 1234821 ok'', ())
   \<and> replace_pii_in_text unicode_fragment None (lit ''id 4821 ok'')
     [\<lparr>ent_label = Some (lit ''pin''), ent_text = Some (lit ''4821''), ent_start = Some 3, ent_end = Some 7\<rparr>,
      \<lparr>ent_label = Some (lit ''cvv''), ent_text = Some [], ent_start = Some 3, ent_end = Some 3\<rparr>] ()
     = Inr (lit ''id 1231234 ok'', ())"
proof -
  let ?c = "\<lparr>ent_label = Some (lit ''cvv''), ent_text = Some [], ent_start = Some 3, ent_end = Some 3\<rparr>"
  let ?p = "\<lparr>ent_label = Some (lit ''pin''), ent_text = Some (lit ''4821''), ent_start = Some 3, ent_end = Some 7\<rparr>"
  have "list_all (valid_offsets (lit ''id 4821 ok'')) [?c, ?p]"
    by (simp add: valid_offsets_def lit_def)
  moreover have "non_overlapping [?c, ?p]"
    by (simp add: overlap_def)
  moreover have "mset [?p, ?c] = mset [?c, ?p]"
    by (simp add: add_mset_commute)
  moreover have "replace_pii_in_text unicode_fragment None (lit ''id 4821 ok'') [?c, ?p] ()
                   = Inr (lit ''id 1234821 ok'', ())"
    by (simp add: run_defs get_replacement_fallbacks) (simp add: eval_defs)
  moreover have "replace_pii_in_text unicode_fragment None (lit ''id 4821 ok'') [?p, ?c] ()
                   = Inr (lit ''id 1231234 ok'', ())"
    by (simp add: run_defs get_replacement_fallbacks) (simp add: eval_defs)
  ultimately show ?thesis by (intro conjI)
qed

text \<open>
  C3, amended. \<^verbatim>\<open>replace_pii_in_text\<close> sorts the spans by start offset, descending,
  before it splices. For every text and every list of spans whose start offsets are
  pairwise distinct, the output is the same for every permutation of the list. Spans
  with valid, pairwise non-overlapping and non-empty ranges have distinct starts. The
  output is the same for any synthesizer that starts from the same state, the
  deterministic one without the Faker library included.
\<close>

theorem permutation_invariant_distinct_starts:
  assumes "distinct (map start_key entities)" and "mset entities' = mset entities"
  shows "replace_pii_in_text ucd fake doc entities' s = replace_pii_in_text ucd fake doc entities s"
  using py_sorted_reverse_perm [OF assms] by (simp add: replace_pii_in_text_loop)

theorem permutation_invariant_distinct_starts_witness:
  "distinct (map start_key
     [\<lparr>ent_label = Some (lit ''pin''), ent_text = Some (lit ''111''), ent_start = Some 1, ent_end = Some 4\<rparr>,
      \<lparr>ent_label = Some (lit ''cvv''), ent_text = Some (lit ''222''), ent_start = Some 6, ent_end = Some 9\<rparr>,
      \<lparr>ent_label = Some (lit ''age''), ent_text = Some (lit ''333''), ent_start = Some 11, ent_end = Some 14\<rparr>])
   \<and> replace_pii_in_text unicode_fragment None (lit ''A111 B222 C333'')
     [\<lparr>ent_label = Some (lit ''age''), ent_text = Some (lit ''333''), ent_start = Some 11, ent_end = Some 14\<rparr>,
      \<lparr>ent_label = Some (lit ''cvv''), ent_text = Some (lit ''222''), ent_start = Some 6, ent_end = Some 9\<rparr>,
      \<lparr>ent_label = Some (lit ''pin''), ent_text = Some (lit ''111''), ent_start = Some 1, ent_end = Some 4\<rparr>] ()
     = replace_pii_in_text unicode_fragment None (lit ''A111 B222 C333'')
     [\<lparr>ent_label = Some (lit ''pin''), ent_text = Some (lit ''111''), ent_start = Some 1, ent_end = Some 4\<rparr>,
      \<lparr>ent_label = Some (lit ''cvv''), ent_text = Some (lit ''222''), ent_start = Some 6, ent_end = Some 9\<rparr>,
      \<lparr>ent_label = Some (lit ''age''), ent_text = Some (lit ''333''), ent_start = Some 11, ent_end = Some 14\<rparr>] ()
   \<and> replace_pii_in_text unicode_fragment None (lit ''A111 B222 C333'')
     [\<lparr>ent_label = Some (lit ''pin''), ent_text = Some (lit ''111''), ent_start = Some 1, ent_end = Some 4\<rparr>,
      \<lparr>ent_label = Some (lit ''cvv''), ent_text = Some (lit ''222''), ent_start = Some 6, ent_end = Some 9\<rparr>,
      \<lparr>ent_label = Some (lit ''age''), ent_text = Some (lit ''333''), ent_start = Some 11, ent_end = Some 14\<rparr>] ()
     = Inr (lit ''A1234 B123 C35'', ())"
proof -
  let ?p = "\<lparr>ent_label = Some (lit ''pin''), ent_text = Some (lit ''111''), ent_start = Some 1, ent_end = Some 4\<rparr>"
  let ?c = "\<lparr>ent_label = Some (lit ''cvv''), ent_text = Some (lit ''222''), ent_start = Some 6, ent_end = Some 9\<rparr>"
  let ?a = "\<lparr>ent_label = Some (lit ''age''), ent_text = Some (lit ''333''), ent_start = Some 11, ent_end = Some 14\<rparr>"
  have d: "distinct (map start_key [?p, ?c, ?a])"
    by (simp add: start_key_def)
  have m: "mset [?a, ?c, ?p] = mset [?p, ?c, ?a]"
    by (simp add: add_mset_commute)
  have v: "replace_pii_in_text unicode_fragment None (lit ''A111 B222 C333'') [?p, ?c, ?a] ()
             = Inr (lit ''A1234 B123 C35'', ())"
    by (simp add: run_defs get_replacement_fallbacks) (simp add: eval_defs)
  from d v permutation_invariant_distinct_starts
    [OF d m, of unicode_fragment None "lit ''A111 B222 C333''" "()"]
  show ?thesis by simp
qed

end
